theory Spec2Isabelle
  imports Main "HOL-Library.AList"
begin

section \<open>Data model\<close>

text \<open>
  Python objects are shared by reference: a table holds its columns as references, and
  two tables may hold the same column. The model therefore keeps every LGDO in a store,
  a total function from addresses to objects, and a table's field mapping is an ordered
  association list from names to addresses (a Python \<open>dict\<close> keeps insertion order).

  Row counts (\<open>size\<close>, \<open>loc\<close>, the length of a column) are natural numbers: no
  column has a negative number of rows.
  Exceptions are values of type \<open>error\<close>; a method that may raise returns
  \<open>error + 'a\<close>. \<open>RecursionError\<close> is what the interpreter raises when nested calls
  exceed its recursion limit; the limit is the \<open>depth\<close> argument of the recursive methods.
  Warnings and log records are diagnostics and are not part of the modelled state.
\<close>

datatype error =
    TypeError | ValueError | RuntimeError | KeyError | AttributeError | RecursionError | SyntaxError

type_synonym addr = nat

record table =
  size_tbl :: "nat option"
  loc :: nat
  columns :: "(string \<times> addr) list"
  attrs :: "(string \<times> string) list"

datatype lgdo =
    Scalar int
  | Array "int list"
  | ArrayOfEqualSizedArrays "int list list"
  | VectorOfVectors "int list list"
  | Table table

type_synonym heap = "addr \<Rightarrow> lgdo"

text \<open>\<open>hasattr(obj, "__len__")\<close>: every variant but the scalar has a length.\<close>

fun has_len :: "lgdo \<Rightarrow> bool" where
  "has_len (Scalar v) = False"
| "has_len (Array nda) = True"
| "has_len (ArrayOfEqualSizedArrays nda) = True"
| "has_len (VectorOfVectors vs) = True"
| "has_len (Table t) = True"

text \<open>
  \<open>len(obj)\<close>. \<open>Table.__len__\<close> returns \<open>self.size\<close>; Python's \<open>len\<close> raises
  \<open>TypeError\<close> when that is \<open>None\<close>, and when the object has no \<open>__len__\<close>.
\<close>

fun len :: "lgdo \<Rightarrow> error + nat" where
  "len (Scalar v) = Inl TypeError"
| "len (Array nda) = Inr (length nda)"
| "len (ArrayOfEqualSizedArrays nda) = Inr (length nda)"
| "len (VectorOfVectors vs) = Inr (length vs)"
| "len (Table t) = (case size_tbl t of None \<Rightarrow> Inl TypeError | Some n \<Rightarrow> Inr n)"

text \<open>
  Modelled from the spec: the \<open>resize(n)\<close> of the column variants \<open>Array\<close>,
  \<open>ArrayOfEqualSizedArrays\<close> and \<open>VectorOfVectors\<close>, whose classes are not part of the
  sources at hand. The spec: each column exposes an in-place \<open>resize(n)\<close> that pads or
  truncates to \<open>n\<close> rows, preserving existing data up to \<open>min(old_length, n)\<close>. The
  spec leaves the padding rows open; the model pads with zeros (a zero row of the same
  width, an empty vector), and no theorem below depends on that choice. A scalar has no
  \<open>resize\<close>.
\<close>

definition pad_to :: "'a \<Rightarrow> nat \<Rightarrow> 'a list \<Rightarrow> 'a list" where
  "pad_to fill n xs = take n xs @ replicate (n - length xs) fill"

fun column_resize :: "lgdo \<Rightarrow> nat \<Rightarrow> error + lgdo" where
  "column_resize (Array nda) n = Inr (Array (pad_to 0 n nda))"
| "column_resize (ArrayOfEqualSizedArrays nda) n =
     Inr (ArrayOfEqualSizedArrays
            (pad_to (replicate (case nda of [] \<Rightarrow> 0 | r # _ \<Rightarrow> length r) 0) n nda))"
| "column_resize (VectorOfVectors vs) n = Inr (VectorOfVectors (pad_to [] n vs))"
| "column_resize (Scalar v) n = Inl AttributeError"
| "column_resize (Table t) n = Inl AttributeError"

section \<open>Table core\<close>

text \<open>Attribute assignments \<open>self.size = v\<close> and \<open>self.loc = v\<close> on the object at an address.\<close>

definition set_size :: "heap \<Rightarrow> addr \<Rightarrow> nat option \<Rightarrow> heap" where
  "set_size h self v = (case h self of Table t \<Rightarrow> h(self := Table (t\<lparr>size_tbl := v\<rparr>)) | _ \<Rightarrow> h)"

definition set_loc :: "heap \<Rightarrow> addr \<Rightarrow> nat \<Rightarrow> heap" where
  "set_loc h self v = (case h self of Table t \<Rightarrow> h(self := Table (t\<lparr>loc := v\<rparr>)) | _ \<Rightarrow> h)"

text \<open>
  The loop of \<open>Table.resize\<close> over \<open>self.items()\<close>, with the loop variable \<open>new_size\<close>
  threaded through. \<open>rs h obj n\<close> is the call \<open>obj.resize(n)\<close>.
\<close>

fun resize_loop ::
  "(heap \<Rightarrow> addr \<Rightarrow> nat \<Rightarrow> error + heap) \<Rightarrow> (string \<times> addr) list \<Rightarrow> heap \<Rightarrow> nat option
     \<Rightarrow> error + heap \<times> nat option" where
  "resize_loop rs [] h new_size = Inr (h, new_size)"
| "resize_loop rs ((field, obj) # items) h new_size =
     (case new_size of
        None \<Rightarrow>
          (case len (h obj) of
             Inl e \<Rightarrow> Inl e
           | Inr l \<Rightarrow> resize_loop rs items h (Some l))
      | Some n \<Rightarrow>
          (case len (h obj) of
             Inl e \<Rightarrow> Inl e
           | Inr l \<Rightarrow>
               if l \<noteq> n then
                 (case rs h obj n of
                    Inl e \<Rightarrow> Inl e
                  | Inr h' \<Rightarrow> resize_loop rs items h' (Some n))
               else resize_loop rs items h (Some n)))"

text \<open>
  The call \<open>obj.resize(n)\<close> made from the loop. Both branches of the
  \<open>isinstance(obj, Table)\<close> test make this call: on a nested table it is
  \<open>Table.resize\<close> again (given here as \<open>table_resize\<close>), on any other column the
  column's own \<open>resize\<close>, which replaces the object stored at \<open>obj\<close>.
\<close>

definition obj_resize ::
  "(heap \<Rightarrow> addr \<Rightarrow> nat \<Rightarrow> error + heap) \<Rightarrow> heap \<Rightarrow> addr \<Rightarrow> nat \<Rightarrow> error + heap" where
  "obj_resize table_resize h obj n =
     (case h obj of
        Table s \<Rightarrow> table_resize h obj n
      | c \<Rightarrow> (case column_resize c n of
               Inl e \<Rightarrow> Inl e
             | Inr c' \<Rightarrow> Inr (h(obj := c'))))"

text \<open>
  \<open>Table.resize(self, new_size=None, do_warn=False)\<close>. A nested table is resized one
  call level deeper, with \<open>do_warn\<close> at its default. \<open>do_warn\<close> only selects whether a
  log record is written.
\<close>

primrec Table_resize :: "nat \<Rightarrow> heap \<Rightarrow> addr \<Rightarrow> nat option \<Rightarrow> bool \<Rightarrow> error + heap" where
  "Table_resize 0 h self new_size do_warn = Inl RecursionError"
| "Table_resize (Suc depth) h self new_size do_warn =
     (case h self of
        Table t \<Rightarrow>
          (case resize_loop
                  (obj_resize (\<lambda>h' obj n. Table_resize depth h' obj (Some n) False))
                  (columns t) h new_size of
             Inl e \<Rightarrow> Inl e
           | Inr (h', new_size') \<Rightarrow> Inr (set_size h' self new_size'))
      | _ \<Rightarrow> Inl AttributeError)"

text \<open>
  Modelled from the spec: the constructor of the named-field container \<open>Struct\<close>, which
  is not part of the sources at hand. The spec: an ordered name-to-column mapping with a
  metadata-attribute dictionary; the column mapping is stored by reference, not copied.
  \<open>size\<close> and \<open>loc\<close> are not yet set at this point; the model starts them at
  \<open>None\<close> and \<open>0\<close>.
\<close>

definition Struct_init ::
  "heap \<Rightarrow> addr \<Rightarrow> (string \<times> addr) list option \<Rightarrow> (string \<times> string) list option \<Rightarrow> heap" where
  "Struct_init h self obj_dict attrs' =
     h(self := Table \<lparr>size_tbl = None, loc = 0,
                      columns = (case obj_dict of None \<Rightarrow> [] | Some d \<Rightarrow> d),
                      attrs = (case attrs' of None \<Rightarrow> [] | Some a \<Rightarrow> a)\<rparr>)"

text \<open>
  \<open>Table.__init__(self, size=None, col_dict=None, attrs=None)\<close>; \<open>self\<close> is the address
  of the object being initialised.
\<close>

definition Table_init ::
  "nat \<Rightarrow> heap \<Rightarrow> addr \<Rightarrow> nat option \<Rightarrow> (string \<times> addr) list option
     \<Rightarrow> (string \<times> string) list option \<Rightarrow> error + heap" where
  "Table_init depth h self size' col_dict attrs' =
     (let h0 = Struct_init h self col_dict attrs' in
      case (if col_dict \<noteq> None \<and> length (the col_dict) > 0
            then Table_resize depth h0 self size' (size' = None)
            else Inr (set_size h0 self (if size' \<noteq> None then size' else None))) of
        Inl e \<Rightarrow> Inl e
      | Inr h1 \<Rightarrow> Inr (set_loc h1 self 0))"

text \<open>
  Modelled from the spec: \<open>Struct.add_field(name, obj)\<close> of the named-field container,
  which is not part of the sources at hand. The spec: an ordered name-to-column mapping
  with field add and remove, insertion order preserved. As a Python \<open>dict\<close> does, an
  existing name keeps its place and gets the new object, a new name goes last; the
  object is stored by reference.
\<close>

definition Struct_add_field :: "heap \<Rightarrow> addr \<Rightarrow> string \<Rightarrow> addr \<Rightarrow> heap" where
  "Struct_add_field h self name obj =
     (case h self of
        Table t \<Rightarrow> h(self := Table (t\<lparr>columns := AList.update name obj (columns t)\<rparr>))
      | _ \<Rightarrow> h)"

text \<open>
  \<open>Table.add_field(self, name, obj, use_obj_size=False)\<close>. The field is stored before any
  size is looked at; \<open>len(obj)\<close> is read from the store each time the source reads it.
\<close>

definition add_field :: "nat \<Rightarrow> heap \<Rightarrow> addr \<Rightarrow> string \<Rightarrow> addr \<Rightarrow> bool \<Rightarrow> error + heap" where
  "add_field depth h self name obj use_obj_size =
     (if \<not> has_len (h obj) then Inl TypeError
      else
        let h1 = Struct_add_field h self name obj in
        case h1 self of
          Table t1 \<Rightarrow>
            (case (if size_tbl t1 = None
                   then (case len (h1 obj) of
                           Inl e \<Rightarrow> Inl e
                         | Inr l \<Rightarrow> Inr (set_size h1 self (Some l)))
                   else Inr h1) of
               Inl e \<Rightarrow> Inl e
             | Inr h2 \<Rightarrow>
                 (case h2 self of
                    Table t2 \<Rightarrow>
                      (case len (h2 obj) of
                         Inl e \<Rightarrow> Inl e
                       | Inr l \<Rightarrow>
                           if size_tbl t2 \<noteq> Some l
                           then Table_resize depth h2 self
                                  (if use_obj_size then Some l else size_tbl t2) False
                           else Inr h2)
                  | _ \<Rightarrow> Inl AttributeError))
        | _ \<Rightarrow> Inl AttributeError)"

definition add_column :: "nat \<Rightarrow> heap \<Rightarrow> addr \<Rightarrow> string \<Rightarrow> addr \<Rightarrow> bool \<Rightarrow> error + heap" where
  "add_column depth h self name obj use_obj_size = add_field depth h self name obj use_obj_size"

text \<open>
  Modelled from the spec: the field lookup \<open>self[name]\<close> of the named-field container,
  which is not part of the sources at hand. It answers with the stored reference, and
  raises \<open>KeyError\<close> for a name that is not a field.
\<close>

definition getitem :: "heap \<Rightarrow> addr \<Rightarrow> string \<Rightarrow> error + addr" where
  "getitem h self name =
     (case h self of
        Table t \<Rightarrow> (case map_of (columns t) name of None \<Rightarrow> Inl KeyError | Some obj \<Rightarrow> Inr obj)
      | _ \<Rightarrow> Inl AttributeError)"

section \<open>Join\<close>

text \<open>
  \<open>Table.join(self, other_table, cols=None, do_warn=True)\<close>. The loop looks each name up
  in \<open>other_table\<close> as it is at that moment (\<open>KeyError\<close> for a name it does not have)
  and passes the object found, not a copy, to \<open>add_column\<close>. \<open>do_warn\<close> only selects
  whether the cursor mismatch is logged.
\<close>

fun join_loop :: "nat \<Rightarrow> heap \<Rightarrow> addr \<Rightarrow> addr \<Rightarrow> string list \<Rightarrow> error + heap" where
  "join_loop depth h self other_table [] = Inr h"
| "join_loop depth h self other_table (name # cols) =
     (case getitem h other_table name of
        Inl e \<Rightarrow> Inl e
      | Inr obj \<Rightarrow>
          (case add_column depth h self name obj False of
             Inl e \<Rightarrow> Inl e
           | Inr h' \<Rightarrow> join_loop depth h' self other_table cols))"

definition join ::
  "nat \<Rightarrow> heap \<Rightarrow> addr \<Rightarrow> addr \<Rightarrow> string list option \<Rightarrow> bool \<Rightarrow> error + heap" where
  "join depth h self other_table cols do_warn =
     (case h other_table of
        Table ot \<Rightarrow>
          join_loop depth h self other_table
            (case cols of None \<Rightarrow> map fst (columns ot) | Some cs \<Rightarrow> cs)
      | _ \<Rightarrow> Inl AttributeError)"

section \<open>Row cursor\<close>




section \<open>View converter\<close>

text \<open>
  \<open>Table.view_as(self, library, with_units=False, cols=None, prefix="")\<close>. The
  \<open>"pd"\<close> branch builds a pandas data frame from the columns' own views and
  \<open>ak.Array(self)\<close> builds an Awkward record array; both libraries are outside the
  sources, so the two constructions are the parameters \<open>to_pd\<close> and \<open>to_ak\<close>. The
  order of the tests and the exceptions raised are the source's.
\<close>

datatype ('df, 'ak) view = DataFrame 'df | AkArray 'ak

definition view_as ::
  "(heap \<Rightarrow> addr \<Rightarrow> bool \<Rightarrow> string list option \<Rightarrow> string \<Rightarrow> error + 'df)
     \<Rightarrow> (heap \<Rightarrow> addr \<Rightarrow> error + 'ak)
     \<Rightarrow> heap \<Rightarrow> addr \<Rightarrow> string \<Rightarrow> bool \<Rightarrow> string list option \<Rightarrow> string
     \<Rightarrow> error + ('df, 'ak) view" where
  "view_as to_pd to_ak h self library with_units cols prefix =
     (if library = ''pd'' then
        (case to_pd h self with_units cols prefix of
           Inl e \<Rightarrow> Inl e
         | Inr df \<Rightarrow> Inr (DataFrame df))
      else if library = ''np'' then Inl TypeError
      else if library = ''ak'' then
        (if with_units then Inl ValueError
         else (case to_ak h self of
                 Inl e \<Rightarrow> Inl e
               | Inr a \<Rightarrow> Inr (AkArray a)))
      else Inl TypeError)"

section \<open>Expression evaluator\<close>

text \<open>
  The values an expression is evaluated over: NumPy arrays (with their number of
  dimensions), Awkward arrays, plain numbers, and any other Python object.
\<close>

datatype ndarray =
    Nd0 (item: int)
  | Nd1 (elements: "int list")
  | Nd2 (row_arrays: "int list list")
  | NdHigher nat

fun ndim :: "ndarray \<Rightarrow> nat" where
  "ndim (Nd0 v) = 0"
| "ndim (Nd1 xs) = 1"
| "ndim (Nd2 rows) = 2"
| "ndim (NdHigher k) = 3 + k"

datatype akarray = Ak1 (to_numpy: "int list") | AkNested (vectors: "int list list")

fun ak_ndim :: "akarray \<Rightarrow> nat" where
  "ak_ndim (Ak1 xs) = 1"
| "ak_ndim (AkNested vs) = 2"

datatype pyobj = NdArr ndarray | AkArr akarray | PyNum int | PyOther

text \<open>
  Modelled from the spec: the \<open>view_as\<close> of the column variants other than the table,
  whose classes are not part of the sources at hand. The spec: columns with a fixed,
  homogeneous numeric shape are viewed as dense numeric arrays; ragged array-of-arrays
  columns are viewed as a nested-sequence array structure. Only the two calls that
  \<open>eval\<close> makes are meant: \<open>"ak"\<close> on a ragged column, \<open>"np"\<close> on any other. A
  nested table answers with its own \<open>view_as\<close> above, which has no \<open>"np"\<close> view.
\<close>

definition column_view_as ::
  "(heap \<Rightarrow> addr \<Rightarrow> bool \<Rightarrow> string list option \<Rightarrow> string \<Rightarrow> error + 'df)
     \<Rightarrow> (heap \<Rightarrow> addr \<Rightarrow> error + 'ak)
     \<Rightarrow> heap \<Rightarrow> addr \<Rightarrow> string \<Rightarrow> error + pyobj" where
  "column_view_as to_pd to_ak h obj library =
     (case h obj of
        Table t \<Rightarrow>
          (case view_as to_pd to_ak h obj library False None [] of
             Inl e \<Rightarrow> Inl e
           | Inr v \<Rightarrow> Inr PyOther)
      | Scalar v \<Rightarrow> Inr (PyNum v)
      | Array nda \<Rightarrow> Inr (NdArr (Nd1 nda))
      | ArrayOfEqualSizedArrays nda \<Rightarrow> Inr (NdArr (Nd2 nda))
      | VectorOfVectors vs \<Rightarrow> Inr (AkArr (AkNested vs)))"

text \<open>
  The loop of \<open>eval\<close> over \<open>c.co_names\<close> that fills \<open>self_unwrap\<close> and sets
  \<open>has_ak\<close>: a name that is a key of the table is viewed as an Awkward array when the
  column is a \<open>VectorOfVectors\<close>, as a NumPy array otherwise.
\<close>

fun unwrap_loop ::
  "(heap \<Rightarrow> addr \<Rightarrow> string \<Rightarrow> error + pyobj) \<Rightarrow> heap \<Rightarrow> table \<Rightarrow> string list
     \<Rightarrow> (string \<rightharpoonup> pyobj) \<Rightarrow> bool \<Rightarrow> error + (string \<rightharpoonup> pyobj) \<times> bool" where
  "unwrap_loop cv h t [] self_unwrap has_ak = Inr (self_unwrap, has_ak)"
| "unwrap_loop cv h t (obj # co_names) self_unwrap has_ak =
     (case map_of (columns t) obj of
        None \<Rightarrow> unwrap_loop cv h t co_names self_unwrap has_ak
      | Some a \<Rightarrow>
          (case h a of
             VectorOfVectors vs \<Rightarrow>
               (case cv h a ''ak'' of
                  Inl e \<Rightarrow> Inl e
                | Inr v \<Rightarrow> unwrap_loop cv h t co_names (self_unwrap(obj \<mapsto> v)) True)
           | _ \<Rightarrow>
               (case cv h a ''np'' of
                  Inl e \<Rightarrow> Inl e
                | Inr v \<Rightarrow> unwrap_loop cv h t co_names (self_unwrap(obj \<mapsto> v)) has_ak)))"

text \<open>
  The dictionary both engines are given, \<open>self_unwrap | parameters\<close>: Python's
  dictionary union, in which the right operand wins. The flag \<open>has_ak\<close> comes with it.
\<close>

definition local_dict ::
  "(heap \<Rightarrow> addr \<Rightarrow> string \<Rightarrow> error + pyobj) \<Rightarrow> heap \<Rightarrow> table \<Rightarrow> string list
     \<Rightarrow> (string \<rightharpoonup> pyobj) \<Rightarrow> error + (string \<rightharpoonup> pyobj) \<times> bool" where
  "local_dict cv h t co_names parameters =
     (case unwrap_loop cv h t co_names Map.empty False of
        Inl e \<Rightarrow> Inl e
      | Inr (self_unwrap, has_ak) \<Rightarrow> Inr (self_unwrap ++ parameters, has_ak))"

text \<open>
  Converting the result back to an LGDO, on the numexpr path (by \<open>out_data.ndim\<close>) and
  on the \<open>eval\<close> path (an \<open>ak.Array\<close> by its \<open>ndim\<close>, then \<open>np.isscalar\<close>).
\<close>

definition wrap_numexpr :: "ndarray \<Rightarrow> error + lgdo" where
  "wrap_numexpr out_data =
     (if ndim out_data = 0 then Inr (Scalar (item out_data))
      else if ndim out_data = 1 then Inr (Array (elements out_data))
      else if ndim out_data = 2 then Inr (ArrayOfEqualSizedArrays (row_arrays out_data))
      else Inl RuntimeError)"

definition wrap_eval :: "pyobj \<Rightarrow> error + lgdo" where
  "wrap_eval out_data =
     (case out_data of
        AkArr a \<Rightarrow>
          if ak_ndim a = 1 then Inr (Array (to_numpy a))
          else Inr (VectorOfVectors (vectors a))
      | PyNum v \<Rightarrow> Inr (Scalar v)
      | _ \<Rightarrow> Inl RuntimeError)"

text \<open>
  The two ways \<open>eval\<close> computes its result from the dictionary: with
  \<open>numexpr.evaluate\<close>, and with Python's \<open>eval\<close> (the modules \<open>ak\<close> and \<open>np\<close> as
  globals). Both engines are outside the sources and are the parameters \<open>ne_evaluate\<close>
  and \<open>py_eval\<close>; an exception of the engine is passed on.
\<close>

definition numexpr_path ::
  "(string \<Rightarrow> (string \<rightharpoonup> pyobj) \<Rightarrow> error + ndarray) \<Rightarrow> string \<Rightarrow> (string \<rightharpoonup> pyobj)
     \<Rightarrow> error + lgdo" where
  "numexpr_path ne_evaluate expr env =
     (case ne_evaluate expr env of
        Inl e \<Rightarrow> Inl e
      | Inr out_data \<Rightarrow> wrap_numexpr out_data)"

definition eval_path ::
  "(string \<Rightarrow> (string \<rightharpoonup> pyobj) \<Rightarrow> error + pyobj) \<Rightarrow> string \<Rightarrow> (string \<rightharpoonup> pyobj)
     \<Rightarrow> error + lgdo" where
  "eval_path py_eval expr env =
     (case py_eval expr env of
        Inl e \<Rightarrow> Inl e
      | Inr out_data \<Rightarrow> wrap_eval out_data)"

text \<open>
  \<open>Table.eval(self, expr, parameters=None)\<close>. Python's \<open>compile\<close>, which gives the
  names of the expression or a \<open>SyntaxError\<close>, is outside the sources too and is the
  parameter \<open>compile\<close>. The result is a new object, not stored in any table.
\<close>

definition eval ::
  "(string \<Rightarrow> error + string list)
     \<Rightarrow> (string \<Rightarrow> (string \<rightharpoonup> pyobj) \<Rightarrow> error + ndarray)
     \<Rightarrow> (string \<Rightarrow> (string \<rightharpoonup> pyobj) \<Rightarrow> error + pyobj)
     \<Rightarrow> (heap \<Rightarrow> addr \<Rightarrow> bool \<Rightarrow> string list option \<Rightarrow> string \<Rightarrow> error + 'df)
     \<Rightarrow> (heap \<Rightarrow> addr \<Rightarrow> error + 'ak)
     \<Rightarrow> heap \<Rightarrow> addr \<Rightarrow> string \<Rightarrow> (string \<rightharpoonup> pyobj) option \<Rightarrow> error + lgdo" where
  "eval compile ne_evaluate py_eval to_pd to_ak h self expr parameters =
     (case compile expr of
        Inl e \<Rightarrow> Inl e
      | Inr co_names \<Rightarrow>
          (case h self of
             Table t \<Rightarrow>
               (case local_dict (column_view_as to_pd to_ak) h t co_names
                       (case parameters of None \<Rightarrow> Map.empty | Some p \<Rightarrow> p) of
                  Inl e \<Rightarrow> Inl e
                | Inr (env, has_ak) \<Rightarrow>
                    if \<not> has_ak then numexpr_path ne_evaluate expr env
                    else eval_path py_eval expr env)
           | _ \<Rightarrow> Inl AttributeError))"

text \<open>A ragged column is a \<open>VectorOfVectors\<close>.\<close>

fun is_ragged :: "lgdo \<Rightarrow> bool" where
  "is_ragged (VectorOfVectors vs) = True"
| "is_ragged c = False"

text \<open>
  The columns an expression refers to: the objects of those names of the expression that
  are keys of the table.
\<close>

definition referenced :: "table \<Rightarrow> string list \<Rightarrow> addr list" where
  "referenced t co_names = List.map_filter (\<lambda>n. map_of (columns t) n) co_names"

section \<open>The size invariant and sequences of calls\<close>

text \<open>
  The invariant of the data model at one table: every column's length is the table's
  size. A table without columns satisfies it whatever its size is.
\<close>

definition size_invariant :: "heap \<Rightarrow> addr \<Rightarrow> bool" where
  "size_invariant h self =
     (case h self of
        Table t \<Rightarrow>
          list_all (\<lambda>(name, obj). case size_tbl t of
                                    None \<Rightarrow> False
                                  | Some n \<Rightarrow> len (h obj) = Inr n) (columns t)
      | _ \<Rightarrow> False)"

text \<open>One call after another; an exception ends the sequence.\<close>

definition and_then :: "error + heap \<Rightarrow> (heap \<Rightarrow> error + heap) \<Rightarrow> error + heap" where
  "and_then r f = (case r of Inl e \<Rightarrow> Inl e | Inr h \<Rightarrow> f h)"

text \<open>
  What \<open>resize\<close> to \<open>n\<close> rows may change in the store: an object keeps its length or
  gets length \<open>n\<close>, no table's field mapping changes, and a table whose size has changed
  has had all its columns resized.
\<close>

definition cols_of :: "lgdo \<Rightarrow> (string \<times> addr) list option" where
  "cols_of c = (case c of Table t \<Rightarrow> Some (columns t) | _ \<Rightarrow> None)"

definition resized_to :: "nat \<Rightarrow> heap \<Rightarrow> heap \<Rightarrow> bool" where
  "resized_to n h h' =
     (\<forall>a. (len (h' a) = len (h a) \<or> len (h' a) = Inr n) \<and> cols_of (h' a) = cols_of (h a) \<and>
          (len (h' a) = len (h a) \<or> cols_of (h a) = None \<or> size_invariant h' a))"

text \<open>
  When \<open>resize\<close> returns. An object can be resized within \<open>k\<close> nested calls when it
  has a length and, if it is a table, every column of it can be resized within \<open>k - 1\<close>
  nested calls. A table that contains itself is not resizable for any \<open>k\<close>: there
  Python's recursion ends in \<open>RecursionError\<close>.
\<close>

primrec resizable :: "nat \<Rightarrow> heap \<Rightarrow> addr \<Rightarrow> bool" where
  "resizable 0 h a = (case h a of Table t \<Rightarrow> False | c \<Rightarrow> has_len c)"
| "resizable (Suc k) h a =
     (case h a of
        Table t \<Rightarrow> size_tbl t \<noteq> None \<and> list_all (\<lambda>(name, obj). resizable k h obj) (columns t)
      | c \<Rightarrow> has_len c)"

text \<open>The object seen through a field of a table: \<open>self[name]\<close>, dereferenced.\<close>

definition read_field :: "heap \<Rightarrow> addr \<Rightarrow> string \<Rightarrow> error + lgdo" where
  "read_field h self name = (case getitem h self name of Inl e \<Rightarrow> Inl e | Inr obj \<Rightarrow> Inr (h obj))"

section \<open>Example stores and stand-in engines\<close>

text \<open>
  Concrete stores for the examples below: a few columns, a table \<open>12\<close> nested in a
  table \<open>13\<close>, and a table \<open>14\<close> with two arrays and a ragged column. The engines are
  small stand-ins for the libraries: they know the sum of the names \<open>a\<close> and \<open>b\<close>,
  the sum of \<open>r\<close> and \<open>b\<close>, and the sum over \<open>a\<close>. On NumPy arrays the stand-in
  for Python's \<open>eval\<close> answers with a NumPy array, on an Awkward array with an Awkward
  array, and for a sum over an array with a number.
\<close>

definition example_store :: heap where
  "example_store = (\<lambda>a. Scalar 0)(0 := Array [1, 2, 3], 1 := Array [10, 20, 30, 40, 50],
                              2 := VectorOfVectors [[5], [6, 7], [8, 9, 0]], 3 := Array [4, 5, 6],
                              4 := Array [7, 7])"

definition nested_store :: heap where
  "nested_store =
     example_store(12 := Table \<lparr>size_tbl = Some 3, loc = 0, columns = [(''z'', 3)], attrs = []\<rparr>,
            13 := Table \<lparr>size_tbl = Some 3, loc = 0, columns = [(''sub'', 12), (''x'', 0)],
                         attrs = []\<rparr>,
            14 := Table \<lparr>size_tbl = Some 3, loc = 0,
                         columns = [(''a'', 0), (''b'', 3), (''r'', 2)], attrs = []\<rparr>,
            15 := Table \<lparr>size_tbl = Some 3, loc = 0, columns = [(''a'', 0), (''b'', 2)],
                         attrs = []\<rparr>)"

definition example_compile :: "string \<Rightarrow> error + string list" where
  "example_compile expr =
     (if expr = ''a + b'' then Inr [''a'', ''b'']
      else if expr = ''sub + 1'' then Inr [''sub'']
      else if expr = ''r + b'' then Inr [''r'', ''b'']
      else if expr = ''sum(a)'' then Inr [''sum'', ''a'']
      else Inl SyntaxError)"

definition example_numexpr :: "string \<Rightarrow> (string \<rightharpoonup> pyobj) \<Rightarrow> error + ndarray" where
  "example_numexpr expr env =
     (if expr = ''sum(a)'' then
        (case env ''a'' of
           Some (NdArr (Nd1 xs)) \<Rightarrow> Inr (Nd0 (sum_list xs))
         | _ \<Rightarrow> Inl KeyError)
      else
        (case (env ''a'', env ''b'') of
           (Some (NdArr (Nd1 xs)), Some (NdArr (Nd1 ys))) \<Rightarrow> Inr (Nd1 (map2 (+) xs ys))
         | (Some (NdArr (Nd1 xs)), Some (PyNum v)) \<Rightarrow> Inr (Nd1 (map (\<lambda>x. x + v) xs))
         | _ \<Rightarrow> Inl KeyError))"

definition example_py_eval :: "string \<Rightarrow> (string \<rightharpoonup> pyobj) \<Rightarrow> error + pyobj" where
  "example_py_eval expr env =
     (if expr = ''sum(a)'' then
        (case env ''a'' of
           Some (NdArr (Nd1 xs)) \<Rightarrow> Inr (PyNum (sum_list xs))
         | _ \<Rightarrow> Inl KeyError)
      else if expr = ''a + b'' then
        (case (env ''a'', env ''b'') of
           (Some (NdArr (Nd1 xs)), Some (NdArr (Nd1 ys))) \<Rightarrow> Inr (NdArr (Nd1 (map2 (+) xs ys)))
         | _ \<Rightarrow> Inl KeyError)
      else
        (case (env ''r'', env ''b'') of
           (Some (AkArr (AkNested vs)), Some (PyNum v)) \<Rightarrow>
             Inr (AkArr (AkNested (map (map (\<lambda>x. x + v)) vs)))
         | _ \<Rightarrow> Inl KeyError))"

definition example_to_pd ::
  "heap \<Rightarrow> addr \<Rightarrow> bool \<Rightarrow> string list option \<Rightarrow> string \<Rightarrow> error + unit" where
  "example_to_pd h self with_units cols prefix = Inr ()"

definition example_to_ak :: "heap \<Rightarrow> addr \<Rightarrow> error + unit" where
  "example_to_ak h self = Inr ()"

section \<open>What a resize changes\<close>

lemma size_invariantD:
  "size_invariant h self \<Longrightarrow>
     \<exists>t. h self = Table t \<and>
         (\<forall>(f, c) \<in> set (columns t). \<exists>n. size_tbl t = Some n \<and> len (h c) = Inr n)"
  by (auto simp: size_invariant_def list_all_iff split: lgdo.splits option.splits)

lemma size_invariantI:
  "h self = Table t \<Longrightarrow> size_tbl t = Some n \<Longrightarrow>
     \<forall>(f, c) \<in> set (columns t). len (h c) = Inr n \<Longrightarrow> size_invariant h self"
  by (auto simp: size_invariant_def list_all_iff)

lemma resized_to_refl: "resized_to n h h"
  by (simp add: resized_to_def)

lemma resized_to_len: "resized_to n h h' \<Longrightarrow> len (h' a) = len (h a) \<or> len (h' a) = Inr n"
  by (simp add: resized_to_def)

lemma resized_to_cols: "resized_to n h h' \<Longrightarrow> cols_of (h' a) = cols_of (h a)"
  by (simp add: resized_to_def)

lemma resized_to_len_keep:
  "resized_to n h h' \<Longrightarrow> len (h a) = Inr n \<Longrightarrow> len (h' a) = Inr n"
  using resized_to_len [of n h h' a] by auto

lemma resized_to_sized:
  "resized_to n h h' \<Longrightarrow> len (h a) = Inr l \<Longrightarrow> \<exists>l'. len (h' a) = Inr l'"
  using resized_to_len [of n h h' a] by auto

lemma resized_to_Table:
  "resized_to n h h' \<Longrightarrow> h a = Table t \<Longrightarrow> \<exists>t'. h' a = Table t' \<and> columns t' = columns t"
  using resized_to_cols [of n h h' a] by (auto simp: cols_of_def split: lgdo.splits)

text \<open>A table that has the invariant at size \<open>n\<close> keeps it through a resize to \<open>n\<close>.\<close>

lemma size_invariant_resized_to:
  assumes inv: "size_invariant h a" and l: "len (h a) = Inr n" and r: "resized_to n h h'"
  shows "size_invariant h' a"
proof -
  from size_invariantD [OF inv] obtain t where t: "h a = Table t"
    and all: "\<forall>(f, c) \<in> set (columns t). \<exists>m. size_tbl t = Some m \<and> len (h c) = Inr m"
    by blast
  from t l have sz: "size_tbl t = Some n" by (auto split: option.splits)
  from resized_to_Table [OF r t] obtain t' where t': "h' a = Table t'"
    and c: "columns t' = columns t" by blast
  from resized_to_len_keep [OF r l] t' have sz': "size_tbl t' = Some n"
    by (auto split: option.splits)
  from all sz have "\<forall>(f, c) \<in> set (columns t). len (h c) = Inr n" by auto
  with r have "\<forall>(f, c) \<in> set (columns t). len (h' c) = Inr n"
    by (auto dest: resized_to_len_keep)
  with c have "\<forall>(f, c) \<in> set (columns t'). len (h' c) = Inr n" by simp
  with t' sz' show ?thesis by (rule size_invariantI)
qed

lemma resized_to_trans:
  assumes a: "resized_to n h h1" and b: "resized_to n h1 h2"
  shows "resized_to n h h2"
  unfolding resized_to_def
proof (intro allI conjI)
  fix a
  from resized_to_len [OF a, of a] resized_to_len [OF b, of a]
  show "len (h2 a) = len (h a) \<or> len (h2 a) = Inr n" by auto
  from resized_to_cols [OF a, of a] resized_to_cols [OF b, of a]
  show c: "cols_of (h2 a) = cols_of (h a)" by simp
  show "len (h2 a) = len (h a) \<or> cols_of (h a) = None \<or> size_invariant h2 a"
  proof (cases "len (h2 a) = len (h1 a)")
    case same: True
    show ?thesis
    proof (cases "len (h1 a) = len (h a)")
      case True
      with same show ?thesis by simp
    next
      case False
      with a have "cols_of (h a) = None \<or> size_invariant h1 a" by (auto simp: resized_to_def)
      moreover from False resized_to_len [OF a, of a] have "len (h1 a) = Inr n" by auto
      ultimately show ?thesis using b by (auto intro: size_invariant_resized_to)
    qed
  next
    case False
    with b have "cols_of (h1 a) = None \<or> size_invariant h2 a" by (auto simp: resized_to_def)
    with resized_to_cols [OF a, of a] show ?thesis by auto
  qed
qed

lemma column_resize_len:
  "column_resize c n = Inr c' \<Longrightarrow> len c' = Inr n \<and> cols_of c' = None \<and> cols_of c = None"
  by (cases c) (auto simp: pad_to_def cols_of_def)

lemma resized_to_upd:
  "len c' = Inr n \<Longrightarrow> cols_of c' = None \<Longrightarrow> cols_of (h a) = None \<Longrightarrow>
     resized_to n h (h(a := c'))"
  by (simp add: resized_to_def)

lemma set_size_len:
  "h self = Table t \<Longrightarrow> len (set_size h self (Some n) self) = Inr n"
  by (simp add: set_size_def)

lemma size_invariant_set_size:
  assumes t: "h self = Table t"
    and all: "\<forall>(name, obj) \<in> set (columns t). len (h obj) = Inr n"
  shows "size_invariant (set_size h self (Some n)) self"
  using t all
  by (auto simp: size_invariant_def set_size_def list_all_iff)

lemma set_size_resized:
  assumes t: "h self = Table t"
    and all: "\<forall>(name, obj) \<in> set (columns t). len (h obj) = Inr n"
  shows "resized_to n h (set_size h self (Some n))"
proof -
  have inv: "size_invariant (set_size h self (Some n)) self"
    using t all by (rule size_invariant_set_size)
  have other: "set_size h self (Some n) a = h a" if "a \<noteq> self" for a
    using that t by (simp add: set_size_def)
  have self: "set_size h self (Some n) self = Table (t\<lparr>size_tbl := Some n\<rparr>)"
    using t by (simp add: set_size_def)
  show ?thesis
    unfolding resized_to_def
  proof (intro allI)
    fix a
    show "(len (set_size h self (Some n) a) = len (h a) \<or> len (set_size h self (Some n) a) = Inr n) \<and>
          cols_of (set_size h self (Some n) a) = cols_of (h a) \<and>
          (len (set_size h self (Some n) a) = len (h a) \<or> cols_of (h a) = None \<or>
           size_invariant (set_size h self (Some n)) a)"
    proof (cases "a = self")
      case True
      with self t inv show ?thesis by (simp add: cols_of_def)
    next
      case False
      then show ?thesis by (simp add: other)
    qed
  qed
qed

lemma obj_resize_ok:
  assumes tr: "\<And>h obj h'. tr h obj n = Inr h' \<Longrightarrow> resized_to n h h' \<and> len (h' obj) = Inr n"
    and r: "obj_resize tr h obj n = Inr h'"
  shows "resized_to n h h' \<and> len (h' obj) = Inr n"
proof (cases "cols_of (h obj)")
  case (Some cs)
  with r have "tr h obj n = Inr h'"
    by (cases "h obj") (simp_all add: obj_resize_def cols_of_def)
  then show ?thesis by (rule tr)
next
  case None
  with r obtain c' where c': "column_resize (h obj) n = Inr c'" and h': "h' = h(obj := c')"
    by (cases "h obj") (auto simp: obj_resize_def cols_of_def split: sum.splits)
  from column_resize_len [OF c'] None show ?thesis
    unfolding h' by (simp add: resized_to_upd)
qed

section \<open>The loop of resize\<close>

lemma resize_loop_Some:
  assumes rs: "\<And>h obj h'. rs h obj n = Inr h' \<Longrightarrow> resized_to n h h' \<and> len (h' obj) = Inr n"
  shows "resize_loop rs items h (Some n) = Inr (h', ns) \<Longrightarrow>
     ns = Some n \<and> resized_to n h h' \<and> (\<forall>(name, obj) \<in> set items. len (h' obj) = Inr n)"
proof (induction items arbitrary: h)
  case Nil
  then show ?case by (simp add: resized_to_refl)
next
  case (Cons item items)
  obtain field obj where item: "item = (field, obj)" by (cases item)
  from Cons.prems item obtain l where l: "len (h obj) = Inr l"
    by (auto split: sum.splits)
  show ?case
  proof (cases "l = n")
    case True
    with Cons.prems item l have "resize_loop rs items h (Some n) = Inr (h', ns)" by simp
    from Cons.IH [OF this] l True item show ?thesis
      by (auto dest: resized_to_len_keep)
  next
    case False
    with Cons.prems item l obtain h1 where h1: "rs h obj n = Inr h1"
      and rest: "resize_loop rs items h1 (Some n) = Inr (h', ns)"
      by (auto split: sum.splits)
    from rs [OF h1] have a: "resized_to n h h1" and b: "len (h1 obj) = Inr n" by simp_all
    from Cons.IH [OF rest] a b item show ?thesis
      by (auto dest: resized_to_len_keep intro: resized_to_trans)
  qed
qed


lemma resize_loop_agree:
  "\<forall>(f, c) \<in> set items. len (h c) = Inr n \<Longrightarrow> resize_loop rs items h (Some n) = Inr (h, Some n)"
  by (induction items) auto

section \<open>Table.resize\<close>

lemma Table_resize_Some:
  "Table_resize depth h self (Some n) w = Inr h' \<Longrightarrow>
     resized_to n h h' \<and> len (h' self) = Inr n"
proof (induction depth arbitrary: h self w h')
  case 0
  then show ?case by simp
next
  case (Suc depth)
  from Suc.prems obtain t where t: "h self = Table t"
    by (auto split: lgdo.splits)
  let ?rs = "obj_resize (\<lambda>h' obj n. Table_resize depth h' obj (Some n) False)"
  from Suc.prems t obtain h1 ns where loop: "resize_loop ?rs (columns t) h (Some n) = Inr (h1, ns)"
    and h': "h' = set_size h1 self ns"
    by (auto split: sum.splits)
  have rs: "\<And>h obj h'. ?rs h obj n = Inr h' \<Longrightarrow> resized_to n h h' \<and> len (h' obj) = Inr n"
    by (erule obj_resize_ok [rotated]) (rule Suc.IH)
  from resize_loop_Some [of ?rs n, OF rs loop]
  have ns: "ns = Some n" and r1: "resized_to n h h1"
    and all: "\<forall>(name, obj) \<in> set (columns t). len (h1 obj) = Inr n" by simp_all
  from resized_to_Table [OF r1 t] obtain t1 where t1: "h1 self = Table t1"
    and c: "columns t1 = columns t" by blast
  from all c have all1: "\<forall>(name, obj) \<in> set (columns t1). len (h1 obj) = Inr n" by simp
  have "resized_to n h1 h'" unfolding h' ns using t1 all1 by (rule set_size_resized)
  with r1 have "resized_to n h h'" by (rule resized_to_trans)
  moreover have "len (h' self) = Inr n" unfolding h' ns using t1 by (rule set_size_len)
  ultimately show ?case by simp
qed




text \<open>A table whose columns already have one length is left as it is by \<open>resize()\<close>.\<close>

lemma set_size_same: "h self = Table t \<Longrightarrow> size_tbl t = v \<Longrightarrow> set_size h self v = h"
  by (auto simp: set_size_def)

lemma Table_resize_noop:
  assumes inv: "size_invariant h self" and t: "h self = Table t" and ne: "columns t \<noteq> []"
  shows "Table_resize (Suc depth) h self None w = Inr h"
proof -
  from ne obtain f c rest where cs: "columns t = (f, c) # rest" by (cases "columns t") auto
  from inv t cs obtain n where n: "size_tbl t = Some n"
    by (auto simp: size_invariant_def split: option.splits)
  with inv t have all: "\<forall>(f, c) \<in> set (columns t). len (h c) = Inr n"
    by (auto simp: size_invariant_def list_all_iff)
  with cs have "len (h c) = Inr n" and "\<forall>(f, c) \<in> set rest. len (h c) = Inr n" by auto
  then have "resize_loop rs (columns t) h None = Inr (h, Some n)" for rs
    unfolding cs by (simp add: resize_loop_agree)
  with t n show ?thesis by (simp add: set_size_same)
qed

lemma Table_resize_empty:
  assumes t: "h self = Table t" and e: "columns t = []"
  shows "Table_resize (Suc depth) h self None w = Inr (h(self := Table (t\<lparr>size_tbl := None\<rparr>)))"
  using t e by (simp add: set_size_def)

section \<open>When resize returns\<close>

lemma len_has_len: "len c = Inr l \<Longrightarrow> has_len c"
  by (cases c) auto

lemma resizable_len: "resizable k h a \<Longrightarrow> \<exists>l. len (h a) = Inr l"
  by (cases k; cases "h a") auto

text \<open>Being resizable depends only on which objects have a length and on the field mappings.\<close>

lemma resizable_same_shape:
  assumes cols: "\<And>a. cols_of (h' a) = cols_of (h a)"
    and sized: "\<And>a l. len (h a) = Inr l \<Longrightarrow> \<exists>l'. len (h' a) = Inr l'"
  shows "resizable k h a \<Longrightarrow> resizable k h' a"
proof (induction k arbitrary: a)
  case 0
  from resizable_len [OF 0] obtain l where l: "len (h a) = Inr l" by blast
  from 0 have nt: "cols_of (h a) = None" by (cases "h a") (auto simp: cols_of_def)
  with cols have nt': "cols_of (h' a) = None" by simp
  from sized [OF l] obtain l' where "len (h' a) = Inr l'" by blast
  then have "has_len (h' a)" by (rule len_has_len)
  with nt' show ?case by (cases "h' a") (auto simp: cols_of_def)
next
  case (Suc k)
  from resizable_len [OF Suc.prems] obtain l where l: "len (h a) = Inr l" by blast
  from sized [OF l] obtain l' where l': "len (h' a) = Inr l'" by blast
  have c: "cols_of (h' a) = cols_of (h a)" by (rule cols)
  show ?case
  proof (cases "h a")
    case (Table t)
    with c obtain t' where t': "h' a = Table t'" and ct: "columns t' = columns t"
      by (cases "h' a") (auto simp: cols_of_def)
    from Suc.prems Table have "\<forall>(f, c) \<in> set (columns t). resizable k h c"
      by (simp add: list_all_iff)
    with Suc.IH have "\<forall>(f, c) \<in> set (columns t). resizable k h' c" by blast
    with t' ct l' show ?thesis by (auto simp: list_all_iff split: option.splits)
  next
    case (Scalar v)
    with Suc.prems show ?thesis by simp
  next
    case (Array nda)
    with c l' show ?thesis by (cases "h' a") (auto simp: cols_of_def)
  next
    case (ArrayOfEqualSizedArrays nda)
    with c l' show ?thesis by (cases "h' a") (auto simp: cols_of_def)
  next
    case (VectorOfVectors vs)
    with c l' show ?thesis by (cases "h' a") (auto simp: cols_of_def)
  qed
qed

lemma resizable_resized_to:
  "resizable k h a \<Longrightarrow> resized_to n h h' \<Longrightarrow> resizable k h' a"
  by (erule resizable_same_shape [rotated 2])
     (auto simp: resized_to_cols dest: resized_to_sized)

lemma resizable_set_size:
  "resizable k h a \<Longrightarrow> resizable k (set_size h self (Some n)) a"
  by (erule resizable_same_shape [rotated 2])
     (auto simp: set_size_def cols_of_def split: lgdo.splits option.splits)

lemma obj_resize_column:
  assumes nt: "cols_of (h c) = None" and hl: "has_len (h c)"
  shows "\<exists>h'. obj_resize tr h c n = Inr h' \<and> resized_to n h h'"
proof -
  from nt hl obtain c' where c': "column_resize (h c) n = Inr c'"
    by (cases "h c") (auto simp: cols_of_def)
  with nt have "obj_resize tr h c n = Inr (h(c := c'))"
    by (cases "h c") (auto simp: obj_resize_def cols_of_def)
  moreover from column_resize_len [OF c'] have "resized_to n h (h(c := c'))"
    by (simp add: resized_to_upd)
  ultimately show ?thesis by blast
qed

lemma resize_loop_total:
  assumes rs: "\<And>h c n. resizable k h c \<Longrightarrow> \<exists>h'. rs h c n = Inr h' \<and> resized_to n h h'"
  shows "\<forall>(f, c) \<in> set items. resizable k h c \<Longrightarrow>
           \<exists>h' ns'. resize_loop rs items h ns = Inr (h', ns')"
proof (induction items arbitrary: h ns)
  case Nil
  then show ?case by simp
next
  case (Cons item items)
  obtain f c where item: "item = (f, c)" by (cases item)
  with Cons.prems have rc: "resizable k h c" and rest: "\<forall>(f, c) \<in> set items. resizable k h c"
    by auto
  from resizable_len [OF rc] obtain l where l: "len (h c) = Inr l" by blast
  show ?case
  proof (cases ns)
    case None
    with item l Cons.IH [OF rest, of "Some l"] show ?thesis by simp
  next
    case (Some n)
    show ?thesis
    proof (cases "l = n")
      case True
      with Some item l Cons.IH [OF rest, of "Some n"] show ?thesis by simp
    next
      case False
      from rs [OF rc, of n] obtain h1 where h1: "rs h c n = Inr h1" and r: "resized_to n h h1"
        by blast
      from rest r have "\<forall>(f, c) \<in> set items. resizable k h1 c"
        by (auto dest: resizable_resized_to)
      from Cons.IH [OF this, of "Some n"] Some item l False h1 show ?thesis by simp
    qed
  qed
qed

text \<open>
  Enough recursion depth gives a result: a table whose columns can all be resized
  within \<open>k\<close> nested calls is resized by a call that may nest \<open>k + 1\<close> deep.
\<close>

lemma Table_resize_total:
  "h self = Table t \<Longrightarrow> \<forall>(f, c) \<in> set (columns t). resizable k h c \<Longrightarrow>
     \<exists>h'. Table_resize (Suc k) h self new_size w = Inr h'"
proof (induction k arbitrary: h self t new_size w)
  case 0
  define rs where "rs = obj_resize (\<lambda>h' obj n. Table_resize 0 h' obj (Some n) False)"
  have "\<exists>h'. rs h c n = Inr h' \<and> resized_to n h h'" if "resizable 0 h c" for h c n
  proof -
    from that have nt: "cols_of (h c) = None" and hl: "has_len (h c)"
      by (cases "h c"; simp add: cols_of_def)+
    then show ?thesis unfolding rs_def by (rule obj_resize_column)
  qed
  from resize_loop_total [of 0 rs, OF this 0(2)] obtain h1 ns' where
    "resize_loop rs (columns t) h new_size = Inr (h1, ns')" by blast
  with 0(1) show ?case by (simp add: rs_def)
next
  case (Suc k)
  define rs where "rs = obj_resize (\<lambda>h' obj n. Table_resize (Suc k) h' obj (Some n) False)"
  have "\<exists>h'. rs h c n = Inr h' \<and> resized_to n h h'" if rc: "resizable (Suc k) h c" for h c n
  proof (cases "h c")
    case (Table s)
    with rc have "\<forall>(f, c) \<in> set (columns s). resizable k h c" by (simp add: list_all_iff)
    from Suc.IH [OF Table this] obtain h' where
      tr: "Table_resize (Suc k) h c (Some n) False = Inr h'" by blast
    with Table have "rs h c n = Inr h'" by (simp add: obj_resize_def rs_def)
    moreover from Table_resize_Some [OF tr] have "resized_to n h h'" by simp
    ultimately show ?thesis by blast
  next
    case (Scalar v)
    with rc show ?thesis by simp
  next
    case (Array nda)
    then show ?thesis unfolding rs_def by (intro obj_resize_column) (simp_all add: cols_of_def)
  next
    case (ArrayOfEqualSizedArrays nda)
    then show ?thesis unfolding rs_def by (intro obj_resize_column) (simp_all add: cols_of_def)
  next
    case (VectorOfVectors vs)
    then show ?thesis unfolding rs_def by (intro obj_resize_column) (simp_all add: cols_of_def)
  qed
  from resize_loop_total [of "Suc k" rs, OF this Suc.prems(2)] obtain h1 ns' where
    "resize_loop rs (columns t) h new_size = Inr (h1, ns')" by blast
  with Suc.prems(1) show ?case by (simp add: rs_def)
qed

section \<open>Construction and add_field\<close>





lemma update_member: "(k, v) \<in> set (AList.update k v al)"
  by (induction al) auto

text \<open>
  The three ways a call of \<open>add_field\<close> returns: the table had no size and takes the
  column's length; the lengths agree and the field is only stored; the lengths differ and
  the table (with the field stored) is resized.
\<close>

lemma add_field_cases:
  assumes r: "add_field depth h self name obj use_obj_size = Inr h'"
  obtains t l where "h self = Table t" "len (h obj) = Inr l" "size_tbl t = None" "obj \<noteq> self"
      "h' = h(self := Table (t\<lparr>columns := AList.update name obj (columns t), size_tbl := Some l\<rparr>))"
  | t l where "h self = Table t" "len (h obj) = Inr l" "size_tbl t = Some l"
      "h' = h(self := Table (t\<lparr>columns := AList.update name obj (columns t)\<rparr>))"
  | t l s where "h self = Table t" "len (h obj) = Inr l" "size_tbl t = Some s" "s \<noteq> l"
      "obj \<noteq> self"
      "Table_resize depth (h(self := Table (t\<lparr>columns := AList.update name obj (columns t)\<rparr>)))
          self (if use_obj_size then Some l else Some s) False = Inr h'"
proof -
  from r have hl: "has_len (h obj)" by (auto simp: add_field_def split: if_splits)
  from r obtain t where t: "h self = Table t"
    by (cases "h self") (auto simp: add_field_def Struct_add_field_def Let_def split: if_splits)
  let ?h1 = "h(self := Table (t\<lparr>columns := AList.update name obj (columns t)\<rparr>))"
  have h1: "Struct_add_field h self name obj = ?h1" using t by (simp add: Struct_add_field_def)
  show ?thesis
  proof (cases "size_tbl t")
    case None
    with r hl t h1 obtain l where l: "len (?h1 obj) = Inr l"
      by (auto simp: add_field_def Let_def split: sum.splits)
    with None have ne: "obj \<noteq> self" by auto
    with l have l': "len (h obj) = Inr l" by simp
    from r hl t h1 None l ne
    have "h' = h(self := Table (t\<lparr>columns := AList.update name obj (columns t),
                                   size_tbl := Some l\<rparr>))"
      by (auto simp: add_field_def Let_def set_size_def split: sum.splits if_splits)
    with t l' None ne show ?thesis by (rule that(1))
  next
    case (Some s)
    with r hl t h1 obtain l where l: "len (?h1 obj) = Inr l"
      by (auto simp: add_field_def Let_def split: sum.splits)
    show ?thesis
    proof (cases "s = l")
      case True
      from l Some True have l': "len (h obj) = Inr l" using t by (cases "obj = self") auto
      from r hl t h1 Some l True have "h' = ?h1"
        by (auto simp: add_field_def Let_def split: sum.splits if_splits)
      with t l' Some True show ?thesis by (auto intro: that(2))
    next
      case False
      with l Some have ne: "obj \<noteq> self" by auto
      with l have l': "len (h obj) = Inr l" by simp
      from r hl t h1 Some l False
      have "Table_resize depth ?h1 self (if use_obj_size then Some l else Some s) False = Inr h'"
        by (auto simp: add_field_def Let_def split: sum.splits if_splits)
      with t l' Some False ne show ?thesis by (rule that(3))
    qed
  qed
qed



text \<open>
  Construction and \<open>add_field\<close> return when the columns of the table, with the new
  field stored, can be resized within the depth at hand.
\<close>

lemma Table_init_total:
  assumes "\<forall>(f, c) \<in> set col_dict. resizable k (Struct_init h self (Some col_dict) attrs') c"
  shows "\<exists>h'. Table_init (Suc k) h self size' (Some col_dict) attrs' = Inr h'"
proof (cases "col_dict = []")
  case True
  then show ?thesis by (simp add: Table_init_def)
next
  case False
  let ?h0 = "Struct_init h self (Some col_dict) attrs'"
  have t: "?h0 self = Table \<lparr>size_tbl = None, loc = 0, columns = col_dict,
                               attrs = (case attrs' of None \<Rightarrow> [] | Some a \<Rightarrow> a)\<rparr>"
    by (simp add: Struct_init_def)
  from assms have "\<forall>(f, c) \<in> set (columns \<lparr>size_tbl = None, loc = 0, columns = col_dict,
                               attrs = (case attrs' of None \<Rightarrow> [] | Some a \<Rightarrow> a)\<rparr>).
                      resizable k ?h0 c" by simp
  from Table_resize_total [OF t this] obtain h1 where
    "Table_resize (Suc k) ?h0 self size' (size' = None) = Inr h1" by blast
  with False show ?thesis by (simp add: Table_init_def)
qed

lemma add_field_total:
  assumes t: "h self = Table t"
    and cols: "\<forall>(f, c) \<in> set (AList.update name obj (columns t)).
                 resizable k (Struct_add_field h self name obj) c"
  shows "\<exists>h'. add_field (Suc k) h self name obj use_obj_size = Inr h'"
proof -
  let ?h1 = "Struct_add_field h self name obj"
  let ?t1 = "t\<lparr>columns := AList.update name obj (columns t)\<rparr>"
  have h1: "?h1 self = Table ?t1" using t by (simp add: Struct_add_field_def)
  have "(name, obj) \<in> set (AList.update name obj (columns t))" by (rule update_member)
  with cols have ro: "resizable k ?h1 obj" by blast
  from resizable_len [OF ro] obtain l where l: "len (?h1 obj) = Inr l" by blast
  have hl: "has_len (h obj)"
  proof (cases "obj = self")
    case True
    with t show ?thesis by simp
  next
    case False
    with t have "?h1 obj = h obj" by (simp add: Struct_add_field_def)
    with l show ?thesis by (auto intro: len_has_len)
  qed
  show ?thesis
  proof (cases "size_tbl t")
    case None
    let ?h2 = "set_size ?h1 self (Some l)"
    have h2: "?h2 self = Table (?t1\<lparr>size_tbl := Some l\<rparr>)" using h1 by (simp add: set_size_def)
    from None l t have ne: "obj \<noteq> self" by (auto simp: Struct_add_field_def)
    with l have l2: "len (?h2 obj) = Inr l" using h1 by (simp add: set_size_def)
    from hl h1 None l h2 l2 show ?thesis
      by (simp add: add_field_def Let_def)
  next
    case (Some s)
    from cols have "\<forall>(f, c) \<in> set (columns ?t1). resizable k ?h1 c" by simp
    from Table_resize_total [OF h1 this] obtain h' where
      "Table_resize (Suc k) ?h1 self (if use_obj_size then Some l else size_tbl ?t1) False = Inr h'"
      by blast
    with hl h1 Some l show ?thesis
      by (auto simp: add_field_def Let_def)
  qed
qed

section \<open>Join\<close>

lemma add_field_cols:
  assumes r: "add_field depth h self name obj use_obj_size = Inr h'"
  shows "\<exists>t. h self = Table t \<and> cols_of (h' self) = Some (AList.update name obj (columns t)) \<and>
           (\<forall>a. a \<noteq> self \<longrightarrow> cols_of (h' a) = cols_of (h a))"
  using r
proof (cases rule: add_field_cases)
  case (1 t l)
  then show ?thesis by (simp add: cols_of_def)
next
  case (2 t l)
  then show ?thesis by (simp add: cols_of_def)
next
  case (3 t l s)
  let ?h1 = "h(self := Table (t\<lparr>columns := AList.update name obj (columns t)\<rparr>))"
  from 3(6) have "\<exists>n. resized_to n ?h1 h'"
    by (cases use_obj_size) (auto dest: Table_resize_Some)
  then have "cols_of (h' a) = cols_of (?h1 a)" for a
    by (auto simp: resized_to_cols)
  with 3(1) show ?thesis by (simp add: cols_of_def)
qed

lemma join_loop_shares:
  assumes "join_loop depth h self other_table names = Inr h'"
    and "cols_of (h other_table) = Some C" and "cols_of (h self) = Some Cs"
  shows "cols_of (h' other_table) = Some C \<and>
         (\<exists>Cs'. cols_of (h' self) = Some Cs' \<and>
            (\<forall>n. n \<in> set names \<or> map_of Cs n = map_of C n \<longrightarrow> map_of Cs' n = map_of C n)) \<and>
         (\<forall>n \<in> set names. map_of C n \<noteq> None)"
  using assms
proof (induction names arbitrary: h Cs)
  case Nil
  then show ?case by simp
next
  case (Cons name names)
  from Cons.prems(2) obtain ot where ot: "h other_table = Table ot" and C: "columns ot = C"
    by (auto simp: cols_of_def split: lgdo.splits)
  from Cons.prems(1) ot C obtain obj h1 where obj: "map_of C name = Some obj"
    and af: "add_field depth h self name obj False = Inr h1"
    and rest: "join_loop depth h1 self other_table names = Inr h'"
    by (auto simp: getitem_def add_column_def split: sum.splits option.splits)
  from add_field_cols [OF af] Cons.prems(3)
  have s1: "cols_of (h1 self) = Some (AList.update name obj Cs)"
    and other: "\<forall>a. a \<noteq> self \<longrightarrow> cols_of (h1 a) = cols_of (h a)"
    by (auto simp: cols_of_def)
  have o1: "cols_of (h1 other_table) = Some C"
  proof (cases "other_table = self")
    case True
    with Cons.prems(2,3) have "Cs = C" by simp
    with obj have "AList.update name obj Cs = C" by (simp add: update_triv)
    with s1 True show ?thesis by simp
  next
    case False
    with other Cons.prems(2) show ?thesis by simp
  qed
  from Cons.IH [OF rest o1 s1] obtain Cs' where a: "cols_of (h' other_table) = Some C"
    and b: "cols_of (h' self) = Some Cs'"
    and c: "\<forall>n. n \<in> set names \<or> map_of (AList.update name obj Cs) n = map_of C n \<longrightarrow>
                 map_of Cs' n = map_of C n"
    and d: "\<forall>n \<in> set names. map_of C n \<noteq> None"
    by blast
  have "map_of Cs' n = map_of C n" if "n \<in> set (name # names) \<or> map_of Cs n = map_of C n" for n
  proof (cases "n = name")
    case True
    with obj have "map_of (AList.update name obj Cs) n = map_of C n" by (simp add: update_conv')
    with c show ?thesis by blast
  next
    case False
    with that have "n \<in> set names \<or> map_of (AList.update name obj Cs) n = map_of C n"
      by (auto simp: update_conv')
    with c show ?thesis by blast
  qed
  with a b d obj show ?case by auto
qed

section \<open>Evaluating the examples\<close>

lemma Table_resize_numeral [simp]:
  "Table_resize (numeral k) h self new_size do_warn =
     Table_resize (Suc (pred_numeral k)) h self new_size do_warn"
  by (simp only: numeral_eq_Suc)

lemma Table_resize_1 [simp]:
  "Table_resize 1 h self new_size do_warn = Table_resize (Suc 0) h self new_size do_warn"
  by simp

lemmas run_simps =
  and_then_def Table_init_def Struct_init_def example_store_def nested_store_def
  set_size_def set_loc_def obj_resize_def pad_to_def add_field_def add_column_def
  Struct_add_field_def size_invariant_def getitem_def read_field_def join_def cols_of_def

lemmas eval_simps =
  eval_def numexpr_path_def eval_path_def local_dict_def column_view_as_def view_as_def
  wrap_numexpr_def wrap_eval_def
  example_compile_def example_numexpr_def example_py_eval_def example_to_pd_def
  example_to_ak_def referenced_def List.map_filter_simps nested_store_def example_store_def

section \<open>The size invariant (C1)\<close>




section \<open>The default size (C2)\<close>

text \<open>
  C2: a table built without columns and without a size has the default size 1024; with
  a size and no columns it has that size. The constructor's comment and docstring
  promise the default of 1024, but the assignment is
  \<open>self.size = size if size is not None else None\<close>: without a size the table's size is
  left unset. The second half of the claim holds.
\<close>

theorem Table_init_default_size_unset:
  "Table_init depth h self None None None
     = Inr (h(self := Table \<lparr>size_tbl = None, loc = 0, columns = [], attrs = []\<rparr>))
   \<and> Table_init depth h self None (Some []) None
     = Inr (h(self := Table \<lparr>size_tbl = None, loc = 0, columns = [], attrs = []\<rparr>))
   \<and> Table_init depth h self (Some n) None None
     = Inr (h(self := Table \<lparr>size_tbl = Some n, loc = 0, columns = [], attrs = []\<rparr>))
   \<and> Table_init depth h self (Some n) (Some []) None
     = Inr (h(self := Table \<lparr>size_tbl = Some n, loc = 0, columns = [], attrs = []\<rparr>))"
  by (simp add: Table_init_def Struct_init_def set_size_def set_loc_def)

section \<open>The size policy of add_field (C3)\<close>



section \<open>Joined columns are shared (C4)\<close>

text \<open>
  C4: after \<open>self.join(other_table, cols)\<close>, for every joined name \<open>n\<close> the two tables
  hold the same object under \<open>n\<close> (the same address, the one \<open>other_table\<close> held before
  the call), and the field mapping of \<open>other_table\<close> is what it was. Hence whatever is
  written to that object in place is what both tables read under \<open>n\<close>.
\<close>

theorem join_shares_columns:
  assumes j: "join depth h self other_table cols do_warn = Inr h'"
    and t1: "h other_table = Table t1" and t2: "h self = Table t2"
    and n: "n \<in> set (case cols of None \<Rightarrow> map fst (columns t1) | Some cs \<Rightarrow> cs)"
  shows "\<exists>obj. getitem h' self n = Inr obj \<and> getitem h' other_table n = Inr obj \<and>
           getitem h other_table n = Inr obj \<and>
           cols_of (h' other_table) = cols_of (h other_table) \<and>
           (\<forall>v. obj \<noteq> self \<and> obj \<noteq> other_table \<longrightarrow>
                read_field (h'(obj := v)) self n = Inr v \<and>
                read_field (h'(obj := v)) other_table n = Inr v)"
proof -
  let ?names = "case cols of None \<Rightarrow> map fst (columns t1) | Some cs \<Rightarrow> cs"
  from j t1 have jl: "join_loop depth h self other_table ?names = Inr h'"
    by (simp add: join_def)
  from t1 have c1: "cols_of (h other_table) = Some (columns t1)" by (simp add: cols_of_def)
  from t2 have c2: "cols_of (h self) = Some (columns t2)" by (simp add: cols_of_def)
  from join_loop_shares [OF jl c1 c2] n obtain Cs' where
    a: "cols_of (h' other_table) = Some (columns t1)" and b: "cols_of (h' self) = Some Cs'"
    and c: "map_of Cs' n = map_of (columns t1) n" and d: "map_of (columns t1) n \<noteq> None"
    by blast
  from d obtain obj where obj: "map_of (columns t1) n = Some obj" by blast
  from a b c obj t1 show ?thesis
    by (auto simp: getitem_def read_field_def cols_of_def split: lgdo.splits)
qed

theorem join_shares_columns_witness:
  "join 2 nested_store 13 14 (Some [''a'', ''r'']) True
     = Inr (nested_store
             (13 := Table \<lparr>size_tbl = Some 3, loc = 0,
                           columns = [(''sub'', 12), (''x'', 0), (''a'', 0), (''r'', 2)],
                           attrs = []\<rparr>)) \<and>
   getitem (nested_store
             (13 := Table \<lparr>size_tbl = Some 3, loc = 0,
                           columns = [(''sub'', 12), (''x'', 0), (''a'', 0), (''r'', 2)],
                           attrs = []\<rparr>)) 13 ''r'' = Inr 2 \<and>
   getitem (nested_store
             (13 := Table \<lparr>size_tbl = Some 3, loc = 0,
                           columns = [(''sub'', 12), (''x'', 0), (''a'', 0), (''r'', 2)],
                           attrs = []\<rparr>)) 14 ''r'' = Inr 2 \<and>
   read_field ((nested_store
             (13 := Table \<lparr>size_tbl = Some 3, loc = 0,
                           columns = [(''sub'', 12), (''x'', 0), (''a'', 0), (''r'', 2)],
                           attrs = []\<rparr>))(2 := VectorOfVectors [[1], [], [2]])) 13 ''r''
     = Inr (VectorOfVectors [[1], [], [2]])"
proof -
  let ?H = "nested_store
             (13 := Table \<lparr>size_tbl = Some 3, loc = 0,
                           columns = [(''sub'', 12), (''x'', 0), (''a'', 0), (''r'', 2)],
                           attrs = []\<rparr>)"
  have j: "join 2 nested_store 13 14 (Some [''a'', ''r'']) True = Inr ?H"
    by (simp add: run_simps fun_eq_iff)
  have t1: "nested_store 14 = Table \<lparr>size_tbl = Some 3, loc = 0,
                         columns = [(''a'', 0), (''b'', 3), (''r'', 2)], attrs = []\<rparr>"
    by (simp add: nested_store_def)
  have t2: "nested_store 13 = Table \<lparr>size_tbl = Some 3, loc = 0,
                         columns = [(''sub'', 12), (''x'', 0)], attrs = []\<rparr>"
    by (simp add: nested_store_def)
  have n: "''r'' \<in> set (case Some [''a'', ''r''] of None \<Rightarrow> map fst (columns \<lparr>size_tbl = Some 3, loc = 0,
                         columns = [(''a'', 0), (''b'', 3), (''r'', 2)], attrs = []\<rparr>) | Some cs \<Rightarrow> cs)"
    by simp
  have g: "getitem nested_store 14 ''r'' = Inr 2" by (simp add: run_simps)
  from join_shares_columns [OF j t1 t2 n] g
  have "getitem ?H 13 ''r'' = Inr 2 \<and> getitem ?H 14 ''r'' = Inr 2 \<and>
        read_field (?H(2 := VectorOfVectors [[1], [], [2]])) 13 ''r''
          = Inr (VectorOfVectors [[1], [], [2]])"
    by auto
  with j show ?thesis by blast
qed

section \<open>The result of eval on the numexpr path (C5)\<close>



lemma unwrap_loop_step:
  assumes "unwrap_loop cv h t (obj # names) su b = Inr r"
  shows "\<exists>su1 b1. unwrap_loop cv h t names su1 b1 = Inr r \<and>
           (case map_of (columns t) obj of
              None \<Rightarrow> su1 = su \<and> b1 = b
            | Some a \<Rightarrow>
                \<exists>v. cv h a (if is_ragged (h a) then ''ak'' else ''np'') = Inr v \<and>
                    su1 = su(obj \<mapsto> v) \<and> b1 = (b \<or> is_ragged (h a)))"
proof (cases "map_of (columns t) obj")
  case None
  with assms show ?thesis by simp
next
  case (Some a)
  with assms show ?thesis
    by (cases "h a") (auto split: sum.splits)
qed


lemma unwrap_loop_other:
  "unwrap_loop cv h t names su b = Inr (su', b') \<Longrightarrow>
     n \<notin> set names \<or> map_of (columns t) n = None \<Longrightarrow> su' n = su n"
proof (induction names arbitrary: su b)
  case Nil
  then show ?case by simp
next
  case (Cons obj names)
  from unwrap_loop_step [OF Cons.prems(1)] obtain su1 b1 where
    rest: "unwrap_loop cv h t names su1 b1 = Inr (su', b')"
    and step: "case map_of (columns t) obj of
              None \<Rightarrow> su1 = su \<and> b1 = b
            | Some a \<Rightarrow>
                \<exists>v. cv h a (if is_ragged (h a) then ''ak'' else ''np'') = Inr v \<and>
                    su1 = su(obj \<mapsto> v) \<and> b1 = (b \<or> is_ragged (h a))"
    by blast
  from Cons.prems(2) have "n \<notin> set names \<or> map_of (columns t) n = None" by auto
  from Cons.IH [OF rest this] have "su' n = su1 n" .
  moreover from Cons.prems(2) have "n \<noteq> obj \<or> map_of (columns t) obj = None" by auto
  with step have "su1 n = su n"
    by (cases "map_of (columns t) obj") auto
  ultimately show ?case by simp
qed

lemma unwrap_loop_view:
  "unwrap_loop cv h t names su b = Inr (su', b') \<Longrightarrow>
     n \<in> set names \<Longrightarrow> map_of (columns t) n = Some a \<Longrightarrow>
     \<exists>v. cv h a (if is_ragged (h a) then ''ak'' else ''np'') = Inr v \<and> su' n = Some v"
proof (induction names arbitrary: su b)
  case Nil
  then show ?case by simp
next
  case (Cons obj names)
  from unwrap_loop_step [OF Cons.prems(1)] obtain su1 b1 where
    rest: "unwrap_loop cv h t names su1 b1 = Inr (su', b')"
    and step: "case map_of (columns t) obj of
              None \<Rightarrow> su1 = su \<and> b1 = b
            | Some a \<Rightarrow>
                \<exists>v. cv h a (if is_ragged (h a) then ''ak'' else ''np'') = Inr v \<and>
                    su1 = su(obj \<mapsto> v) \<and> b1 = (b \<or> is_ragged (h a))"
    by blast
  show ?case
  proof (cases "n \<in> set names")
    case True
    from Cons.IH [OF rest True Cons.prems(3)] show ?thesis .
  next
    case False
    with Cons.prems(2) have n: "n = obj" by simp
    from False have "n \<notin> set names \<or> map_of (columns t) n = None" by simp
    from unwrap_loop_other [OF rest this] have "su' n = su1 n" .
    with step n Cons.prems(3) show ?thesis by auto
  qed
qed




section \<open>resize without a size (C6)\<close>

text \<open>
  C6 says that \<open>resize()\<close> changes nothing on any table whose columns agree in length,
  a table without columns included. On a table without columns the loop never sets
  \<open>new_size\<close>, and \<open>self.size = new_size\<close> unsets the size: built with
  \<open>Table(size=5)\<close>, the table has no size after \<open>resize()\<close>.
\<close>

theorem resize_without_size_counterexample:
  "(case Table_init 1 example_store 10 (Some 5) None None of
      Inl e \<Rightarrow> False
    | Inr h \<Rightarrow>
        size_invariant h 10 \<and> len (h 10) = Inr 5 \<and> cols_of (h 10) = Some [] \<and>
        (case Table_resize 1 h 10 None False of
           Inl e \<Rightarrow> False
         | Inr h' \<Rightarrow> len (h' 10) \<noteq> Inr 5 \<and> h' \<noteq> h))"
  by (simp add: run_simps fun_eq_iff)

text \<open>
  C6 as amended. On a table with at least one column whose columns all have the table's
  size as their length, \<open>resize()\<close> returns and leaves the whole store as it was. On a
  table without columns it unsets the size and changes nothing else.
\<close>

theorem resize_without_size_idempotent:
  assumes "size_invariant h self" and "h self = Table t"
  shows "(columns t \<noteq> [] \<longrightarrow> Table_resize (Suc depth) h self None do_warn = Inr h) \<and>
         (columns t = [] \<longrightarrow>
            Table_resize (Suc depth) h self None do_warn
              = Inr (h(self := Table (t\<lparr>size_tbl := None\<rparr>))))"
proof (intro conjI impI)
  assume "columns t \<noteq> []"
  with assms show "Table_resize (Suc depth) h self None do_warn = Inr h"
    by (rule Table_resize_noop)
next
  assume "columns t = []"
  with assms(2)
  show "Table_resize (Suc depth) h self None do_warn = Inr (h(self := Table (t\<lparr>size_tbl := None\<rparr>)))"
    by (rule Table_resize_empty)
qed

theorem resize_without_size_idempotent_witness:
  "size_invariant nested_store 13 \<and>
   nested_store 13 = Table \<lparr>size_tbl = Some 3, loc = 0, columns = [(''sub'', 12), (''x'', 0)],
                            attrs = []\<rparr> \<and>
   Table_resize 1 nested_store 13 None False = Inr nested_store \<and>
   size_invariant
     (example_store(10 := Table \<lparr>size_tbl = Some 5, loc = 0, columns = [], attrs = []\<rparr>)) 10 \<and>
   Table_resize 1
     (example_store(10 := Table \<lparr>size_tbl = Some 5, loc = 0, columns = [], attrs = []\<rparr>))
     10 None False
     = Inr (example_store(10 := Table \<lparr>size_tbl = None, loc = 0, columns = [], attrs = []\<rparr>))"
proof -
  let ?t = "\<lparr>size_tbl = Some 3, loc = 0, columns = [(''sub'', 12), (''x'', 0)], attrs = []\<rparr>"
  let ?e = "\<lparr>size_tbl = Some 5, loc = 0, columns = [], attrs = []\<rparr>"
  let ?H = "example_store(10 := Table ?e)"
  have inv: "size_invariant nested_store 13" by (simp add: run_simps)
  have t: "nested_store 13 = Table ?t" by (simp add: nested_store_def)
  have inv0: "size_invariant ?H 10" by (simp add: size_invariant_def)
  have t0: "?H 10 = Table ?e" by simp
  from resize_without_size_idempotent [where h = nested_store and self = 13 and t = ?t
      and depth = 0 and do_warn = False, OF inv t]
  have r: "Table_resize (Suc 0) nested_store 13 None False = Inr nested_store"
    by (simp del: Table_resize.simps)
  from resize_without_size_idempotent [where h = ?H and self = 10 and t = ?e
      and depth = 0 and do_warn = False, OF inv0 t0]
  have r0: "Table_resize (Suc 0) ?H 10 None False
      = Inr (example_store(10 := Table \<lparr>size_tbl = None, loc = 0, columns = [], attrs = []\<rparr>))"
    by (simp del: Table_resize.simps)
  from inv t inv0 r r0 show ?thesis unfolding One_nat_def by blast
qed

section \<open>The errors of view_as (C7)\<close>

text \<open>
  C7 says that \<open>view_as\<close> raises an error of the \<open>TypeError\<close> class for \<open>"np"\<close>, for
  \<open>"ak"\<close> with \<open>with_units\<close>, and for an unknown format. For \<open>"ak"\<close> with
  \<open>with_units\<close> the source raises \<open>ValueError\<close>.
\<close>

theorem view_as_units_counterexample:
  "view_as example_to_pd example_to_ak nested_store 13 ''ak'' True None [] = Inl ValueError \<and>
   view_as example_to_pd example_to_ak nested_store 13 ''ak'' True None [] \<noteq> Inl TypeError"
  by (simp add: view_as_def)

text \<open>
  C7 as amended: \<open>view_as\<close> raises \<open>TypeError\<close> for \<open>"np"\<close> on every input,
  \<open>ValueError\<close> for \<open>"ak"\<close> with \<open>with_units\<close>, and \<open>TypeError\<close> for every format
  other than \<open>"pd"\<close>, \<open>"np"\<close> and \<open>"ak"\<close>.
\<close>

theorem view_as_errors:
  "view_as to_pd to_ak h self ''np'' with_units cols prefix = Inl TypeError \<and>
   view_as to_pd to_ak h self ''ak'' True cols prefix = Inl ValueError \<and>
   (library \<noteq> ''pd'' \<and> library \<noteq> ''np'' \<and> library \<noteq> ''ak'' \<longrightarrow>
      view_as to_pd to_ak h self library with_units cols prefix = Inl TypeError)"
  by (simp add: view_as_def)

theorem view_as_errors_witness:
  "''parquet'' \<noteq> ''pd'' \<and> ''parquet'' \<noteq> ''np'' \<and> ''parquet'' \<noteq> ''ak'' \<and>
   view_as example_to_pd example_to_ak nested_store 13 ''parquet'' False None [] = Inl TypeError \<and>
   view_as example_to_pd example_to_ak nested_store 13 ''np'' False None [] = Inl TypeError"
  using view_as_errors [of example_to_pd example_to_ak nested_store 13 False None "[]" "''parquet''"]
  by simp

section \<open>The row cursor (C8)\<close>




section \<open>The two paths of eval compared (C9)\<close>

text \<open>
  C9 says that on pure numeric array algebra without ragged operands the two paths of
  \<open>eval\<close> give equal results. The path is chosen by the columns the names refer to, and
  each path wraps its own kinds of result: the numexpr path a NumPy array by its number of
  dimensions, the path of Python's \<open>eval\<close> an Awkward array or a scalar, and nothing else.
  Take the expression \<open>a + b\<close>, the parameter \<open>b\<close> a NumPy array, and two tables with the
  same array column \<open>a\<close>: in the first the column \<open>b\<close> is an array, in the second it is
  ragged. The parameter shadows the column, so both calls evaluate the same expression
  over the same dictionary of two NumPy arrays, and both engines compute the same sum.
  The first call returns an \<open>Array\<close>, the second raises \<open>RuntimeError\<close>.
\<close>

theorem eval_paths_counterexample:
  "local_dict (column_view_as example_to_pd example_to_ak) nested_store
     \<lparr>size_tbl = Some 3, loc = 0, columns = [(''a'', 0), (''b'', 3), (''r'', 2)], attrs = []\<rparr>
     [''a'', ''b''] [''b'' \<mapsto> NdArr (Nd1 [4, 5, 6])]
     = Inr ([''a'' \<mapsto> NdArr (Nd1 [1, 2, 3]), ''b'' \<mapsto> NdArr (Nd1 [4, 5, 6])], False) \<and>
   local_dict (column_view_as example_to_pd example_to_ak) nested_store
     \<lparr>size_tbl = Some 3, loc = 0, columns = [(''a'', 0), (''b'', 2)], attrs = []\<rparr>
     [''a'', ''b''] [''b'' \<mapsto> NdArr (Nd1 [4, 5, 6])]
     = Inr ([''a'' \<mapsto> NdArr (Nd1 [1, 2, 3]), ''b'' \<mapsto> NdArr (Nd1 [4, 5, 6])], True) \<and>
   example_numexpr ''a + b'' [''a'' \<mapsto> NdArr (Nd1 [1, 2, 3]), ''b'' \<mapsto> NdArr (Nd1 [4, 5, 6])]
     = Inr (Nd1 [5, 7, 9]) \<and>
   example_py_eval ''a + b'' [''a'' \<mapsto> NdArr (Nd1 [1, 2, 3]), ''b'' \<mapsto> NdArr (Nd1 [4, 5, 6])]
     = Inr (NdArr (Nd1 [5, 7, 9])) \<and>
   eval example_compile example_numexpr example_py_eval example_to_pd example_to_ak
     nested_store 14 ''a + b'' (Some [''b'' \<mapsto> NdArr (Nd1 [4, 5, 6])])
     = Inr (Array [5, 7, 9]) \<and>
   eval example_compile example_numexpr example_py_eval example_to_pd example_to_ak
     nested_store 15 ''a + b'' (Some [''b'' \<mapsto> NdArr (Nd1 [4, 5, 6])])
     = Inl RuntimeError"
  by (simp add: eval_simps fun_eq_iff map_add_def)

text \<open>
  C9 as amended. When both engines compute the same number, the two paths return the
  same \<open>Scalar\<close>. An array-valued result is wrapped on the numexpr path only: there a
  NumPy array of one or two dimensions becomes an \<open>Array\<close> or an
  \<open>ArrayOfEqualSizedArrays\<close>; the path of Python's \<open>eval\<close> raises \<open>RuntimeError\<close> on
  every NumPy array.
\<close>

theorem eval_paths_compared:
  "(ne_evaluate expr env = Inr (Nd0 v) \<and> py_eval expr env = Inr (PyNum v) \<longrightarrow>
      numexpr_path ne_evaluate expr env = Inr (Scalar v) \<and>
      eval_path py_eval expr env = Inr (Scalar v)) \<and>
   (py_eval expr env = Inr (NdArr out_data) \<longrightarrow> eval_path py_eval expr env = Inl RuntimeError) \<and>
   (ne_evaluate expr env = Inr out_data \<and> ndim out_data = 1 \<longrightarrow>
      numexpr_path ne_evaluate expr env = Inr (Array (elements out_data))) \<and>
   (ne_evaluate expr env = Inr out_data \<and> ndim out_data = 2 \<longrightarrow>
      numexpr_path ne_evaluate expr env = Inr (ArrayOfEqualSizedArrays (row_arrays out_data)))"
  by (simp add: numexpr_path_def eval_path_def wrap_numexpr_def wrap_eval_def)

theorem eval_paths_compared_witness:
  "example_numexpr ''sum(a)'' [''a'' \<mapsto> NdArr (Nd1 [1, 2, 3])] = Inr (Nd0 6) \<and>
   example_py_eval ''sum(a)'' [''a'' \<mapsto> NdArr (Nd1 [1, 2, 3])] = Inr (PyNum 6) \<and>
   numexpr_path example_numexpr ''sum(a)'' [''a'' \<mapsto> NdArr (Nd1 [1, 2, 3])] = Inr (Scalar 6) \<and>
   eval_path example_py_eval ''sum(a)'' [''a'' \<mapsto> NdArr (Nd1 [1, 2, 3])] = Inr (Scalar 6) \<and>
   example_numexpr ''a + b'' [''a'' \<mapsto> NdArr (Nd1 [1, 2, 3]), ''b'' \<mapsto> NdArr (Nd1 [4, 5, 6])]
     = Inr (Nd1 [5, 7, 9]) \<and>
   ndim (Nd1 [5, 7, 9]) = 1 \<and>
   example_py_eval ''a + b'' [''a'' \<mapsto> NdArr (Nd1 [1, 2, 3]), ''b'' \<mapsto> NdArr (Nd1 [4, 5, 6])]
     = Inr (NdArr (Nd1 [5, 7, 9])) \<and>
   numexpr_path example_numexpr ''a + b''
     [''a'' \<mapsto> NdArr (Nd1 [1, 2, 3]), ''b'' \<mapsto> NdArr (Nd1 [4, 5, 6])] = Inr (Array [5, 7, 9]) \<and>
   eval_path example_py_eval ''a + b''
     [''a'' \<mapsto> NdArr (Nd1 [1, 2, 3]), ''b'' \<mapsto> NdArr (Nd1 [4, 5, 6])] = Inl RuntimeError"
proof -
  let ?e1 = "[''a'' \<mapsto> NdArr (Nd1 [1, 2, 3])]"
  let ?e2 = "[''a'' \<mapsto> NdArr (Nd1 [1, 2, 3]), ''b'' \<mapsto> NdArr (Nd1 [4, 5, 6])]"
  have n1: "example_numexpr ''sum(a)'' ?e1 = Inr (Nd0 6)" by (simp add: example_numexpr_def)
  have p1: "example_py_eval ''sum(a)'' ?e1 = Inr (PyNum 6)" by (simp add: example_py_eval_def)
  have n2: "example_numexpr ''a + b'' ?e2 = Inr (Nd1 [5, 7, 9])"
    by (simp add: example_numexpr_def)
  have p2: "example_py_eval ''a + b'' ?e2 = Inr (NdArr (Nd1 [5, 7, 9]))"
    by (simp add: example_py_eval_def)
  from eval_paths_compared [where ne_evaluate = example_numexpr and py_eval = example_py_eval
      and expr = "''sum(a)''" and env = ?e1 and v = 6] n1 p1
  have s: "numexpr_path example_numexpr ''sum(a)'' ?e1 = Inr (Scalar 6) \<and>
           eval_path example_py_eval ''sum(a)'' ?e1 = Inr (Scalar 6)"
    by blast
  from eval_paths_compared [where ne_evaluate = example_numexpr and py_eval = example_py_eval
      and expr = "''a + b''" and env = ?e2 and out_data = "Nd1 [5, 7, 9]"] n2 p2
  have a: "numexpr_path example_numexpr ''a + b'' ?e2 = Inr (Array [5, 7, 9]) \<and>
           eval_path example_py_eval ''a + b'' ?e2 = Inl RuntimeError"
    by simp
  from n1 p1 n2 p2 s a show ?thesis by simp
qed

section \<open>Parameters shadow columns in eval (C10)\<close>

text \<open>
  C10: in the dictionary that \<open>eval\<close> hands to the engine, on the numexpr path and on
  the \<open>eval\<close> path alike, a name that is a key of \<open>parameters\<close> has the parameter's
  value, also when it names a column. A name of the expression that is a column and not
  a parameter has the column's view.
\<close>

theorem eval_parameters_take_precedence:
  assumes c: "compile expr = Inr co_names" and t: "h self = Table t"
    and ld: "local_dict (column_view_as to_pd to_ak) h t co_names parameters = Inr (env, has_ak)"
  shows "(\<forall>name v. parameters name = Some v \<longrightarrow> env name = Some v) \<and>
         (\<forall>name a. parameters name = None \<and> name \<in> set co_names \<and>
                   map_of (columns t) name = Some a \<longrightarrow>
            (\<exists>v. column_view_as to_pd to_ak h a (if is_ragged (h a) then ''ak'' else ''np'')
                    = Inr v \<and> env name = Some v)) \<and>
         eval compile ne_evaluate py_eval to_pd to_ak h self expr (Some parameters) =
           (if has_ak then eval_path py_eval expr env else numexpr_path ne_evaluate expr env)"
proof -
  from ld obtain su where u: "unwrap_loop (column_view_as to_pd to_ak) h t co_names Map.empty False
      = Inr (su, has_ak)" and env: "env = su ++ parameters"
    by (auto simp: local_dict_def split: sum.splits)
  have 1: "env name = Some v" if "parameters name = Some v" for name v
    using that by (simp add: env)
  have 2: "\<exists>v. column_view_as to_pd to_ak h a (if is_ragged (h a) then ''ak'' else ''np'') = Inr v \<and>
               env name = Some v"
    if "parameters name = None" "name \<in> set co_names" "map_of (columns t) name = Some a"
    for name a
  proof -
    from unwrap_loop_view [OF u that(2,3)] obtain v where
      "column_view_as to_pd to_ak h a (if is_ragged (h a) then ''ak'' else ''np'') = Inr v"
      and "su name = Some v" by blast
    with that(1) show ?thesis by (simp add: env map_add_def)
  qed
  have 3: "eval compile ne_evaluate py_eval to_pd to_ak h self expr (Some parameters) =
           (if has_ak then eval_path py_eval expr env else numexpr_path ne_evaluate expr env)"
    using c t ld by (simp add: eval_def)
  from 1 2 3 show ?thesis by blast
qed

theorem eval_parameters_take_precedence_witness:
  "example_compile ''a + b'' = Inr [''a'', ''b''] \<and>
   local_dict (column_view_as example_to_pd example_to_ak) nested_store
     \<lparr>size_tbl = Some 3, loc = 0, columns = [(''a'', 0), (''b'', 3), (''r'', 2)], attrs = []\<rparr>
     [''a'', ''b''] [''b'' \<mapsto> PyNum 100]
     = Inr ([''a'' \<mapsto> NdArr (Nd1 [1, 2, 3]), ''b'' \<mapsto> PyNum 100], False) \<and>
   eval example_compile example_numexpr example_py_eval example_to_pd example_to_ak
     nested_store 14 ''a + b'' (Some [''b'' \<mapsto> PyNum 100]) = Inr (Array [101, 102, 103]) \<and>
   example_compile ''r + b'' = Inr [''r'', ''b''] \<and>
   local_dict (column_view_as example_to_pd example_to_ak) nested_store
     \<lparr>size_tbl = Some 3, loc = 0, columns = [(''a'', 0), (''b'', 3), (''r'', 2)], attrs = []\<rparr>
     [''r'', ''b''] [''b'' \<mapsto> PyNum 100]
     = Inr ([''r'' \<mapsto> AkArr (AkNested [[5], [6, 7], [8, 9, 0]]), ''b'' \<mapsto> PyNum 100], True) \<and>
   eval example_compile example_numexpr example_py_eval example_to_pd example_to_ak
     nested_store 14 ''r + b'' (Some [''b'' \<mapsto> PyNum 100])
     = Inr (VectorOfVectors [[105], [106, 107], [108, 109, 100]])"
proof -
  let ?t = "\<lparr>size_tbl = Some 3, loc = 0, columns = [(''a'', 0), (''b'', 3), (''r'', 2)],
             attrs = []\<rparr>"
  let ?p = "[''b'' \<mapsto> PyNum 100]"
  let ?env1 = "[''a'' \<mapsto> NdArr (Nd1 [1, 2, 3]), ''b'' \<mapsto> PyNum 100]"
  let ?env2 = "[''r'' \<mapsto> AkArr (AkNested [[5], [6, 7], [8, 9, 0]]), ''b'' \<mapsto> PyNum 100]"
  have c1: "example_compile ''a + b'' = Inr [''a'', ''b'']" by (simp add: example_compile_def)
  have c2: "example_compile ''r + b'' = Inr [''r'', ''b'']" by (simp add: example_compile_def)
  have t: "nested_store 14 = Table ?t" by (simp add: nested_store_def)
  have l1: "local_dict (column_view_as example_to_pd example_to_ak) nested_store ?t [''a'', ''b''] ?p
      = Inr (?env1, False)"
    by (simp add: eval_simps fun_eq_iff map_add_def)
  have l2: "local_dict (column_view_as example_to_pd example_to_ak) nested_store ?t [''r'', ''b''] ?p
      = Inr (?env2, True)"
    by (simp add: eval_simps fun_eq_iff map_add_def)
  from eval_parameters_take_precedence [where compile = example_compile and expr = "''a + b''"
      and h = nested_store and self = 14
      and ne_evaluate = example_numexpr and py_eval = example_py_eval, OF c1 t l1]
  have e1: "eval example_compile example_numexpr example_py_eval example_to_pd example_to_ak
     nested_store 14 ''a + b'' (Some ?p) = Inr (Array [101, 102, 103])"
    by (simp add: example_numexpr_def numexpr_path_def wrap_numexpr_def)
  from eval_parameters_take_precedence [where compile = example_compile and expr = "''r + b''"
      and h = nested_store and self = 14
      and ne_evaluate = example_numexpr and py_eval = example_py_eval, OF c2 t l2]
  have e2: "eval example_compile example_numexpr example_py_eval example_to_pd example_to_ak
     nested_store 14 ''r + b'' (Some ?p)
     = Inr (VectorOfVectors [[105], [106, 107], [108, 109, 100]])"
    by (simp add: example_py_eval_def eval_path_def wrap_eval_def)
  from c1 c2 l1 l2 e1 e2 show ?thesis by blast
qed

end
